theory Spec2Isabelle
  imports Complex_Main "HOL-Library.Word" "HOL-Library.Log_Nat"
begin

section \<open>Pixellator: ASCII video pipeline (main.py) and audio player (audio\_player.py)\<close>

text \<open>
  A shallow embedding of the converter, the extractor, the converter loop, the ANSI
  direct-write renderer and the audio player. NumPy's fixed-width unsigned integers are
  words; Python's \<open>int\<close> is \<open>int\<close>; a Python \<open>float\<close> is the real number it denotes, and
  every floating-point operation rounds its exact result to binary64.
\<close>


subsection \<open>Errors raised by the source\<close>

datatype error =
    ZeroDivisionError   \<comment> \<open>\<open>height / width\<close> with \<open>width = 0\<close>\<close>
  | Cv2Error            \<comment> \<open>\<open>cv2.resize\<close> asked for an empty destination or given an empty image\<close>
  | IndexError          \<comment> \<open>look-up table indexed out of range\<close>
  | TypeError           \<comment> \<open>\<open>len(None)\<close>\<close>
  | ValueError          \<comment> \<open>NumPy assignment of an array that does not fit the target\<close>

subsection \<open>Frames and the glyph ramp\<close>

type_synonym u8 = "8 word"
type_synonym u16 = "16 word"

text \<open>A pixel is a triple of 8-bit channels; an image is a list of rows (height first).\<close>

type_synonym pixel = "u8 \<times> u8 \<times> u8"
type_synonym image = "pixel list list"

text \<open>\<open>frame.shape[:2]\<close>: (height, width).\<close>

definition shape :: "image \<Rightarrow> nat \<times> nat" where
  "shape frame = (length frame, (case frame of [] \<Rightarrow> 0 | row # _ \<Rightarrow> length row))"

text \<open>
  \<open>ASCII_CHARS\<close> (main.py line 26), from lightest to darkest. The quote characters and the
  backslash are written by code point.
\<close>

definition ASCII_CHARS :: string where
  "ASCII_CHARS =
     '' .'' @ [CHR 0x27, CHR 0x60] @ ''^'' @ [CHR 0x22] @ '',:;Il!i~+_-?][}{1)(|'' @ [CHR 0x5C] @
     ''/tfjrxnuvczXYUJCLQ0OZmwqpdbkhao*#MW&8%B@''"

definition ASCII_LUT :: "char list" where
  "ASCII_LUT = ASCII_CHARS"

subsection \<open>Python floats\<close>

text \<open>
  A Python float is an IEEE 754 binary64 number. It is modelled by the real number it
  denotes; an arithmetic operation computes the exact result and rounds it to the nearest
  binary64 number, ties to the even significand. Overflow to infinity and NaN are not
  modelled: the frame sizes, rates and times of this program are far from the ends of
  the range.
\<close>

text \<open>\<open>2 ^ k\<close> for an integer \<open>k\<close>.\<close>

definition pow2 :: "int \<Rightarrow> real" where
  "pow2 k = (if 0 \<le> k then 2 ^ nat k else 1 / 2 ^ nat (- k))"

text \<open>The binary exponent of a positive real \<open>x\<close>: the \<open>e\<close> with \<open>2 ^ e \<le> x < 2 ^ (e + 1)\<close>.\<close>

definition ilog2 :: "real \<Rightarrow> int" where
  "ilog2 x = (if 1 \<le> x then int (floorlog 2 (nat \<lfloor>x\<rfloor>)) - 1
              else - int (floorlog 2 (nat (\<lceil>1 / x\<rceil> - 1))))"

text \<open>Rounding to the nearest integer, a tie to the even one.\<close>

definition round_even :: "real \<Rightarrow> int" where
  "round_even y =
     (let f = \<lfloor>y\<rfloor>; d = y - of_int f in
      if d < 1 / 2 then f else if 1 / 2 < d then f + 1 else if even f then f else f + 1)"

text \<open>
  Rounding to binary64: 53 significant bits, so the spacing at \<open>x\<close> is \<open>2 ^ (e - 52)\<close> for
  the exponent \<open>e\<close> of \<open>x\<close>, and \<open>2 ^ (- 1074)\<close> below the normal range.
\<close>

definition round64 :: "real \<Rightarrow> real" where
  "round64 x =
     (if x = 0 then 0
      else let k = max (ilog2 \<bar>x\<bar>) (- 1022) - 52
           in of_int (round_even (x / pow2 k)) * pow2 k)"

text \<open>The operations \<open>+\<close>, \<open>-\<close>, \<open>*\<close>, \<open>/\<close> on floats, and the conversion of an \<open>int\<close> operand.\<close>

definition fadd :: "real \<Rightarrow> real \<Rightarrow> real" where
  "fadd a b = round64 (a + b)"

definition fsub :: "real \<Rightarrow> real \<Rightarrow> real" where
  "fsub a b = round64 (a - b)"

definition fmul :: "real \<Rightarrow> real \<Rightarrow> real" where
  "fmul a b = round64 (a * b)"

definition fdiv :: "real \<Rightarrow> real \<Rightarrow> real" where
  "fdiv a b = round64 (a / b)"

definition float_of_int :: "int \<Rightarrow> real" where
  "float_of_int n = round64 (real_of_int n)"

text \<open>Python's \<open>int(x)\<close> on a float: truncation towards zero.\<close>

definition py_int :: "real \<Rightarrow> int" where
  "py_int x = (if 0 \<le> x then \<lfloor>x\<rfloor> else \<lceil>x\<rceil>)"

subsection \<open>The shared front end of the three converters\<close>

text \<open>
  \<open>cv2.resize(frame, (new_width, new_height))\<close>. The bilinear sampling itself is OpenCV's
  and is taken as the parameter \<open>interp\<close>; what is modelled is that OpenCV rejects an empty
  source and an empty destination size.
\<close>

definition cv2_resize :: "(image \<Rightarrow> nat \<Rightarrow> nat \<Rightarrow> image) \<Rightarrow> image \<Rightarrow> int \<times> int \<Rightarrow> error + image" where
  "cv2_resize interp frame dsize =
     (case dsize of (new_width, new_height) \<Rightarrow>
        if fst (shape frame) = 0 \<or> snd (shape frame) = 0 then Inl Cv2Error
        else if new_width \<le> 0 \<or> new_height \<le> 0 then Inl Cv2Error
        else Inr (interp frame (nat new_width) (nat new_height)))"

text \<open>\<open>cv2.cvtColor(resized, cv2.COLOR_BGR2RGB)\<close>: swap the first and third channel.\<close>

definition cvtColor_BGR2RGB :: "image \<Rightarrow> image" where
  "cvtColor_BGR2RGB img = map (map (\<lambda>(b, g, r). (r, g, b))) img"

text \<open>
  \<open>np.mean(rgb_frame, axis=2).astype(np.uint8)\<close>: the mean of three 8-bit values is
  computed in float64 as sum / 3 (the sum is exact, and the quotient of an integer below
  766 by 3 never rounds up to the next integer), then truncated to 8 bits.
\<close>

definition brightness_px :: "pixel \<Rightarrow> u8" where
  "brightness_px p = (case p of (r, g, b) \<Rightarrow> of_nat ((unat r + unat g + unat b) div 3))"

definition brightness :: "image \<Rightarrow> u8 list list" where
  "brightness rgb_frame = map (map brightness_px) rgb_frame"

text \<open>
  \<open>(brightness.astype(np.uint16) * (len(ASCII_CHARS) - 1) // 255).astype(np.uint8)\<close>:
  16-bit multiplication (wrapping) and division, then truncation to 8 bits.
\<close>

definition char_index :: "u8 \<Rightarrow> u8" where
  "char_index v = ucast (((ucast v :: u16) * of_nat (length ASCII_CHARS - 1)) div 255)"

definition char_indices :: "u8 list list \<Rightarrow> u8 list list" where
  "char_indices br = map (map char_index) br"

text \<open>\<open>ASCII_LUT[char_indices]\<close>: NumPy raises IndexError for an index beyond the table.\<close>

definition lut_lookup :: "char list \<Rightarrow> u8 list list \<Rightarrow> error + char list list" where
  "lut_lookup lut idx =
     (if list_all (list_all (\<lambda>k. unat k < length lut)) idx
      then Inr (map (map (\<lambda>k. lut ! unat k)) idx)
      else Inl IndexError)"

text \<open>\<open>"\n".join(rows)\<close>.\<close>

fun join_nl :: "string list \<Rightarrow> string" where
  "join_nl [] = []"
| "join_nl [r] = r"
| "join_nl (r # rs) = r @ [CHR 0x0A] @ join_nl rs"

text \<open>\<open>"%d"\<close> formatting of a non-negative integer.\<close>

fun fmt_d :: "nat \<Rightarrow> string" where
  "fmt_d n = (if n < 10 then [char_of (48 + n)] else fmt_d (n div 10) @ [char_of (48 + n mod 10)])"

declare fmt_d.simps [simp del]

subsection \<open>\<open>frame_to_ascii_curses\<close>: plain text\<close>

text \<open>
  Lines 97-100 and 44-47: \<open>aspect_ratio = height / width\<close> (the quotient of two ints,
  rounded once) and \<open>new_height = int(aspect_ratio * new_width * 0.5)\<close>, each product
  rounded.
\<close>

definition new_height_plain :: "nat \<Rightarrow> nat \<Rightarrow> int \<Rightarrow> int" where
  "new_height_plain height width new_width =
     (let aspect_ratio = fdiv (real height) (real width)
      in py_int (fmul (fmul aspect_ratio (float_of_int new_width)) (1 / 2)))"

definition frame_to_ascii_curses ::
  "(image \<Rightarrow> nat \<Rightarrow> nat \<Rightarrow> image) \<Rightarrow> image \<times> int \<Rightarrow> error + string" where
  "frame_to_ascii_curses interp frame_data =
     (case frame_data of (frame, new_width) \<Rightarrow>
      (case shape frame of (height, width) \<Rightarrow>
        if width = 0 then Inl ZeroDivisionError
        else
          let new_height = new_height_plain height width new_width in
          (case cv2_resize interp frame (new_width, new_height) of
            Inl e \<Rightarrow> Inl e
          | Inr resized \<Rightarrow>
              let rgb_frame = cvtColor_BGR2RGB resized in
              (case lut_lookup ASCII_LUT (char_indices (brightness rgb_frame)) of
                Inl e \<Rightarrow> Inl e
              | Inr ascii_chars \<Rightarrow> Inr (join_nl ascii_chars)))))"

subsection \<open>\<open>frame_to_ascii\<close>: text with 24-bit ANSI colour\<close>

definition ansi_cell :: "pixel \<Rightarrow> char \<Rightarrow> string" where
  "ansi_cell p c =
     (case p of (r, g, b) \<Rightarrow>
        [CHR 0x1B] @ ''[38;2;'' @ fmt_d (unat r) @ '';'' @ fmt_d (unat g) @ '';'' @ fmt_d (unat b)
        @ ''m'' @ [c] @ [CHR 0x1B] @ ''[0m'')"

definition frame_to_ascii ::
  "(image \<Rightarrow> nat \<Rightarrow> nat \<Rightarrow> image) \<Rightarrow> image \<times> int \<Rightarrow> error + string" where
  "frame_to_ascii interp frame_data =
     (case frame_data of (frame, new_width) \<Rightarrow>
      (case shape frame of (height, width) \<Rightarrow>
        if width = 0 then Inl ZeroDivisionError
        else
          let new_height = new_height_plain height width new_width in
          (case cv2_resize interp frame (new_width, new_height) of
            Inl e \<Rightarrow> Inl e
          | Inr resized \<Rightarrow>
              let rgb_frame = cvtColor_BGR2RGB resized in
              (case lut_lookup ASCII_LUT (char_indices (brightness rgb_frame)) of
                Inl e \<Rightarrow> Inl e
              | Inr ascii_chars \<Rightarrow>
                  Inr (join_nl (map (\<lambda>(prow, crow). concat (map (\<lambda>(p, c). ansi_cell p c) (zip prow crow)))
                                    (zip rgb_frame ascii_chars)))))))"

subsection \<open>\<open>frame_to_ascii_curses_color\<close>: cells of (glyph, xterm-256 index)\<close>

text \<open>Line 133: \<open>new_height = max(int(aspect_ratio * new_width * 0.5), 1)\<close>.\<close>

definition new_height_color :: "nat \<Rightarrow> nat \<Rightarrow> int \<Rightarrow> int" where
  "new_height_color height width new_width =
     (let aspect_ratio = fdiv (real height) (real width)
      in max (py_int (fmul (fmul aspect_ratio (float_of_int new_width)) (1 / 2))) 1)"





subsection \<open>The claimed glyph and palette index, in the words of the specification\<close>

text \<open>
  For an RGB pixel: \<open>luma = (R+G+B)/3\<close> truncated, glyph \<open>charset[floor(luma * 66 / 255)]\<close>;
  palette index \<open>16 + 36 * floor(R*6/256) + 6 * floor(G*6/256) + floor(B*6/256)\<close>.
\<close>

definition spec_glyph_index :: "pixel \<Rightarrow> nat" where
  "spec_glyph_index p = (case p of (r, g, b) \<Rightarrow> ((unat r + unat g + unat b) div 3) * 66 div 255)"

definition spec_glyph :: "pixel \<Rightarrow> char" where
  "spec_glyph p = ASCII_CHARS ! spec_glyph_index p"


subsection \<open>A sampler to run the converters on concrete frames\<close>

text \<open>
  Nearest-neighbour sampling, standing in for OpenCV's sampler where a converter is
  evaluated on a concrete frame. No general statement below depends on it.
\<close>

definition sample_nearest :: "image \<Rightarrow> nat \<Rightarrow> nat \<Rightarrow> image" where
  "sample_nearest frame w h =
     map (\<lambda>i. map (\<lambda>j. frame ! (i * length frame div h) ! (j * length (hd frame) div w)) [0..<w]) [0..<h]"

subsection \<open>\<open>extract_frames\<close> (main.py lines 167-192)\<close>

text \<open>
  The capture is what OpenCV reports: whether it opened, and the outcomes of the
  successive \<open>cap.read()\<close> calls (a frame, \<open>ret = False\<close>, or a KeyboardInterrupt raised
  while the loop runs). When the list is used up the video has ended: \<open>ret = False\<close>.
\<close>

datatype read_result = Frame image | NoFrame | Interrupt

record capture =
  isOpened :: bool
  reads :: "read_result list"

datatype extract_effect =
    Print string            \<comment> \<open>\<open>print(...)\<close>\<close>
  | PutRaw "image option"   \<comment> \<open>\<open>raw_queue.put(frame)\<close>, \<open>raw_queue.put(None)\<close>\<close>
  | Sleep real              \<comment> \<open>\<open>time.sleep(frame_time)\<close>\<close>
  | Release                 \<comment> \<open>\<open>cap.release()\<close>\<close>

text \<open>
  The \<open>while cap.isOpened()\<close> loop inside \<open>try\<close> (the capture stays open until released):
  its effects, and the exception that leaves the \<open>try\<close> statement, if any.
  \<open>time.sleep\<close> raises ValueError for a negative length.
\<close>

fun read_loop :: "read_result list \<Rightarrow> real \<Rightarrow> extract_effect list \<times> error option" where
  "read_loop [] frame_time = ([], None)"
| "read_loop (NoFrame # rs) frame_time = ([], None)"
| "read_loop (Interrupt # rs) frame_time =
     ([Print ([CHR 0x0A] @ ''[!] Interruzione nell'' @ [CHR 0x27] @ ''estrazione dei frame.'')], None)"
| "read_loop (Frame frame # rs) frame_time =
     (if frame_time < 0 then ([PutRaw (Some frame)], Some ValueError)
      else (case read_loop rs frame_time of
              (effects, raised) \<Rightarrow> (PutRaw (Some frame) # Sleep frame_time # effects, raised)))"

text \<open>
  The effects of a run, and the exception it ends with, if any. \<open>1 / fps\<close> stands before
  the \<open>try\<close>, so a zero \<open>fps\<close> raises past the \<open>finally\<close> clause, which otherwise runs on
  every way out of the loop.
\<close>

definition extract_frames :: "capture \<Rightarrow> int \<Rightarrow> extract_effect list \<times> error option" where
  "extract_frames cap fps =
     (if \<not> isOpened cap then ([Print ''Errore: impossibile aprire il video.''], None)
      else if fps = 0 then ([], Some ZeroDivisionError)
      else (case read_loop (reads cap) (fdiv 1 (real_of_int fps)) of
              (effects, raised) \<Rightarrow> (effects @ [Release, PutRaw None], raised)))"

text \<open>What a run leaves on \<open>raw_queue\<close>, in order.\<close>

fun raw_queue_of :: "extract_effect list \<Rightarrow> image option list" where
  "raw_queue_of [] = []"
| "raw_queue_of (PutRaw x # es) = x # raw_queue_of es"
| "raw_queue_of (_ # es) = raw_queue_of es"

subsection \<open>\<open>convert_frames\<close> (main.py lines 195-237)\<close>

text \<open>
  What the successive calls \<open>raw_queue.get(timeout=0.01)\<close> return: a frame, the
  end-of-stream marker \<open>None\<close>, or \<open>queue.Empty\<close> after the timeout. When the list is used up
  nothing is ever enqueued again and every further call times out.
\<close>

datatype queue_get = Got image | GotNone | Empty

text \<open>
  The effects of the converter: setting the shared stop event, putting a converted frame
  on \<open>ascii_queue\<close> (the conversion time that travels with it is a clock reading and is
  left out), and the message printed when a conversion raises.
\<close>

datatype 'a convert_effect = SetStop | PutAscii 'a | PrintConversionError error

text \<open>Whether the function returned, or polls an empty queue for ever.\<close>

datatype run_status = Returned | Polling

text \<open>
  The \<open>for _ in range(batch_size)\<close> loop of lines 213-221, with \<open>n\<close> rounds left: the batch
  collected, whether \<open>stop_event.set()\<close> was called, and the calls to \<open>get\<close> that remain.
\<close>

fun collect :: "nat \<Rightarrow> queue_get list \<Rightarrow> (image \<times> int) list \<Rightarrow> int
                \<Rightarrow> (image \<times> int) list \<times> bool \<times> queue_get list" where
  "collect 0 evs batch new_width = (batch, False, evs)"
| "collect (Suc n) [] batch new_width = (batch, False, [])"
| "collect (Suc n) (Empty # evs) batch new_width = (batch, False, evs)"
| "collect (Suc n) (GotNone # evs) batch new_width = (batch, True, evs)"
| "collect (Suc n) (Got frame # evs) batch new_width = collect n evs (batch @ [(frame, new_width)]) new_width"

text \<open>
  \<open>pool.map(conversion_function, batch, chunksize=len(batch))\<close>: the results in the order
  of the batch, or the exception of the first conversion that raises.
\<close>

fun pool_map :: "('a \<Rightarrow> error + 'b) \<Rightarrow> 'a list \<Rightarrow> error + 'b list" where
  "pool_map f [] = Inr []"
| "pool_map f (x # xs) =
     (case f x of
        Inl e \<Rightarrow> Inl e
      | Inr y \<Rightarrow> (case pool_map f xs of Inl e \<Rightarrow> Inl e | Inr ys \<Rightarrow> Inr (y # ys)))"

text \<open>
  One round of the \<open>while\<close> loop, entered with the stop event clear: the effects, whether
  the loop goes on (\<open>False\<close> after \<open>break\<close> and once the stop event is set), and the calls to
  \<open>get\<close> that remain.
\<close>

definition convert_round ::
  "(image \<times> int \<Rightarrow> error + 'a) \<Rightarrow> nat \<Rightarrow> int \<Rightarrow> queue_get list
     \<Rightarrow> 'a convert_effect list \<times> bool \<times> queue_get list" where
  "convert_round conversion_function batch_size new_width evs =
     (case collect batch_size evs [] new_width of (batch, stop_set, rest) \<Rightarrow>
        let stop_effect = (if stop_set then [SetStop] else []) in
        if batch = [] then (stop_effect, \<not> stop_set, rest)
        else (case pool_map conversion_function batch of
                Inl e \<Rightarrow> (stop_effect @ [PrintConversionError e], False, rest)
              | Inr ascii_frames \<Rightarrow> (stop_effect @ map PutAscii ascii_frames, \<not> stop_set, rest)))"

lemma collect_rest_length:
  "length (snd (snd (collect n evs batch w))) \<le> length evs"
  by (induction n evs batch w rule: collect.induct) simp_all

lemma collect_rest_shorter:
  "0 < n \<Longrightarrow> evs \<noteq> [] \<Longrightarrow> length (snd (snd (collect n evs batch w))) < length evs"
proof (induction n evs batch w rule: collect.induct)
  case (5 n frame evs batch new_width)
  have "length (snd (snd (collect n evs (batch @ [(frame, new_width)]) new_width))) \<le> length evs"
    by (rule collect_rest_length)
  then show ?case by simp
qed simp_all

lemma convert_round_rest:
  "snd (snd (convert_round conv batch_size w evs)) = snd (snd (collect batch_size evs [] w))"
  by (cases "collect batch_size evs [] w")
     (simp add: convert_round_def Let_def split: sum.splits)

lemma convert_round_rest_shorter:
  "0 < batch_size \<Longrightarrow> evs \<noteq> [] \<Longrightarrow>
   length (snd (snd (convert_round conv batch_size w evs))) < length evs"
  using collect_rest_shorter [of batch_size evs "[]" w] by (simp add: convert_round_rest)

text \<open>
  The \<open>while not stop_event.is_set()\<close> loop, started with the stop event clear and with
  no other thread setting it while the loop runs. With
  \<open>batch_size = 0\<close> the \<open>for\<close> loop does nothing and with the queue empty for ever every
  \<open>get\<close> times out: in both cases each round ends in \<open>continue\<close> with no effect, and the
  loop never ends.
\<close>

function convert_frames ::
  "(image \<times> int \<Rightarrow> error + 'a) \<Rightarrow> nat \<Rightarrow> int \<Rightarrow> queue_get list
     \<Rightarrow> 'a convert_effect list \<times> run_status" where
  "convert_frames conversion_function batch_size new_width evs =
     (if batch_size = 0 \<or> evs = [] then ([], Polling)
      else (case convert_round conversion_function batch_size new_width evs of
              (effects, go_on, rest) \<Rightarrow>
                if go_on
                then (case convert_frames conversion_function batch_size new_width rest of
                        (effects', status) \<Rightarrow> (effects @ effects', status))
                else (effects, Returned)))"
  by pat_completeness auto
termination
proof (relation "measure (\<lambda>(conv, batch_size, w, evs). length evs)", goal_cases)
  case 1
  show ?case by simp
next
  case 2
  then show ?case
    using convert_round_rest_shorter by (fastforce simp: prod_eq_iff)
qed

declare convert_frames.simps [simp del]

text \<open>The frames put on \<open>ascii_queue\<close>, in order.\<close>

fun ascii_queue_of :: "'a convert_effect list \<Rightarrow> 'a list" where
  "ascii_queue_of [] = []"
| "ascii_queue_of (PutAscii a # es) = a # ascii_queue_of es"
| "ascii_queue_of (_ # es) = ascii_queue_of es"

text \<open>The frames of the input sequence: those enqueued before the end-of-stream marker.\<close>

fun frames_before_eos :: "queue_get list \<Rightarrow> image list" where
  "frames_before_eos [] = []"
| "frames_before_eos (GotNone # evs) = []"
| "frames_before_eos (Empty # evs) = frames_before_eos evs"
| "frames_before_eos (Got frame # evs) = frame # frames_before_eos evs"

subsection \<open>\<open>fast_diff_lines\<close> (main.py lines 240-275)\<close>

text \<open>
  The comparison of one pair of lines (lines 264-273): different lengths, or, at equal
  length, the character loop that stops at the first position where the lines differ.
\<close>

definition line_differs :: "string \<Rightarrow> string \<Rightarrow> bool" where
  "line_differs new_line old_line =
     (if length new_line \<noteq> length old_line then True
      else list_ex (\<lambda>j. j \<ge> length old_line \<or> new_line ! j \<noteq> old_line ! j) [0..<length new_line])"

text \<open>
  The loop over \<open>range(max_lines)\<close>: an index beyond both lists is skipped, a line missing
  from one list counts as the empty string, and the indices of differing lines are
  appended in ascending order.
\<close>

definition fast_diff_lines :: "string list \<Rightarrow> string list \<Rightarrow> nat \<Rightarrow> nat list" where
  "fast_diff_lines new_lines old_lines max_lines =
     (let n_new = length new_lines; n_old = length old_lines in
      filter (\<lambda>i. \<not> (i \<ge> n_new \<and> i \<ge> n_old) \<and>
                   line_differs (if i < n_new then new_lines ! i else [])
                                (if i < n_old then old_lines ! i else []))
             [0..<max_lines])"

subsection \<open>\<open>render_frames_sys_partial\<close>: one frame (main.py lines 319-349)\<close>

text \<open>\<open>ascii_frame.split("\n")\<close>: never empty.\<close>

fun split_nl :: "string \<Rightarrow> string list" where
  "split_nl [] = [[]]"
| "split_nl (c # cs) =
     (if c = CHR 0x0A then [] # split_nl cs
      else (case split_nl cs of [] \<Rightarrow> [[c]] | l # ls \<Rightarrow> (c # l) # ls))"

text \<open>
  What one frame sends to the terminal: the clear-screen-and-home sequence, the whole
  frame as it is, or the buffer of line writes, each a cursor move
  \<open>ESC [ row ; 1 H\<close> (rows count from 1) followed by the text of the line.
\<close>

datatype term_output = ClearScreen | FullFrame string | LineWrites "(nat \<times> string) list"

record renderer =
  prev_frame_lines :: "string list option"
  prev_terminal_size :: "nat \<times> nat"

text \<open>Lines 334-343: the line writes of a frame against the mirror.\<close>

definition diff_writes :: "string list \<Rightarrow> string list \<Rightarrow> (nat \<times> string) list" where
  "diff_writes frame_lines prev =
     (let max_lines = max (length frame_lines) (length prev);
          diff_indices = fast_diff_lines frame_lines prev max_lines
      in concat (map (\<lambda>i.
           if i < length frame_lines then
             let new_line = frame_lines ! i;
                 new_line = (if i < length prev then
                               let old_line = prev ! i in
                               if length new_line < length old_line
                               then new_line @ replicate (length old_line - length new_line) CHR '' ''
                               else new_line
                             else new_line)
             in [(i + 1, new_line)]
           else []) diff_indices))"

definition render_frame :: "renderer \<Rightarrow> string \<Rightarrow> nat \<times> nat \<Rightarrow> term_output list \<times> renderer" where
  "render_frame st ascii_frame current_terminal_size =
     (let frame_lines = split_nl ascii_frame;
          terminal_resized = (current_terminal_size \<noteq> prev_terminal_size st);
          cleared = (if terminal_resized then [ClearScreen] else []);
          st = (if terminal_resized
                then st\<lparr>prev_frame_lines := None, prev_terminal_size := current_terminal_size\<rparr>
                else st);
          written = (case prev_frame_lines st of
                       None \<Rightarrow> [FullFrame ascii_frame]
                     | Some prev \<Rightarrow> [LineWrites (diff_writes frame_lines prev)])
      in (cleared @ written, st\<lparr>prev_frame_lines := Some frame_lines\<rparr>))"

subsection \<open>A character grid for the terminal\<close>

text \<open>
  The grid is the list of its rows, each the list of its characters, taken as they stand
  in the mirror (the escape sequences of a coloured line included); a row or a cell
  beyond the lists is blank. Writing a text at column 1 of a row replaces the cells it
  covers and leaves the rest of the row as it was.
\<close>

type_synonym grid = "string list"

definition grid_row :: "grid \<Rightarrow> nat \<Rightarrow> string" where
  "grid_row g i = (if i < length g then g ! i else [])"

definition overwrite :: "string \<Rightarrow> string \<Rightarrow> string" where
  "overwrite row text = text @ drop (length text) row"

definition write_line :: "grid \<Rightarrow> nat \<times> string \<Rightarrow> grid" where
  "write_line g w =
     (case w of (row, text) \<Rightarrow>
        let i = row - 1;
            g = g @ replicate (Suc i - length g) []
        in g[i := overwrite (g ! i) text])"

fun apply_writes :: "grid \<Rightarrow> (nat \<times> string) list \<Rightarrow> grid" where
  "apply_writes g [] = g"
| "apply_writes g (w # ws) = apply_writes (write_line g w) ws"

text \<open>The line writes among the outputs of a frame.\<close>

fun line_writes_of :: "term_output list \<Rightarrow> (nat \<times> string) list" where
  "line_writes_of [] = []"
| "line_writes_of (LineWrites ws # os) = ws @ line_writes_of os"
| "line_writes_of (_ # os) = line_writes_of os"

text \<open>
  A line of the new frame followed by the spaces that cover what is left of the row it is
  written over.
\<close>

definition padded :: "string list \<Rightarrow> string list \<Rightarrow> nat \<Rightarrow> string" where
  "padded new prev i = new ! i @ replicate (length (grid_row prev i) - length (new ! i)) CHR '' ''"

subsection \<open>\<open>AudioPlayer\<close> (audio\_player.py)\<close>

text \<open>
  The state of the player as \<open>__init__\<close> declares it (lines 38-53). Times and PCM samples
  are Python floats; a PCM frame is the list of its channel values (one
  value for a mono clip, where the source writes column 0 of the output buffer). The
  thread, the stream and the clip are kept only as far as \<open>stop\<close> looks at them: whether
  there is one, and whether the thread is alive. Log messages are left out.
\<close>

record command =
  ctype :: string
  ctime :: real

record audio_player =
  should_stop :: bool
  audio_thread :: "bool option"     \<comment> \<open>\<open>None\<close>, or a thread and whether it is alive\<close>
  sync_queue :: "command list"
  audio_time :: real
  video_time :: real
  sync_tolerance :: real
  playback_started :: bool
  audio_clip :: "unit option"
  stream :: "unit option"
  audio_array :: "real list list option"
  samplerate :: int
  initialized :: bool

definition new_player :: audio_player where
  "new_player =
     \<lparr>should_stop = False, audio_thread = None, sync_queue = [], audio_time = 0, video_time = 0,
      sync_tolerance = round64 (1 / 10), playback_started = False, audio_clip = None, stream = None,
      audio_array = None, samplerate = 0, initialized = False\<rparr>"

subsubsection \<open>Python slices and NumPy assignment\<close>





subsubsection \<open>\<open>_audio_callback\<close> (lines 107-164)\<close>




subsubsection \<open>\<open>update_video_time\<close> (lines 224-231)\<close>

definition update_video_time :: "audio_player \<Rightarrow> real \<Rightarrow> audio_player" where
  "update_video_time p current_time =
     (let p = p\<lparr>video_time := current_time\<rparr> in
      if \<bar>fsub (audio_time p) (video_time p)\<bar> > sync_tolerance p
      then p\<lparr>sync_queue := sync_queue p @ [\<lparr>ctype = ''set_time'', ctime = current_time\<rparr>]\<rparr>
      else p)"

subsubsection \<open>\<open>stop\<close> (lines 240-275)\<close>

datatype stop_effect = JoinThread | AbortStream

text \<open>
  The effects on the thread and on the stream, and the player afterwards. An exception of
  \<open>stream.abort()\<close> is caught and logged, and \<open>finally\<close> clears the stream either way, so
  the player after \<open>stop\<close> does not depend on it.
\<close>

definition stop :: "audio_player \<Rightarrow> stop_effect list \<times> audio_player" where
  "stop p =
     (if should_stop p then ([], p)
      else
        let p = p\<lparr>should_stop := True\<rparr>;
            joined = (if audio_thread p = Some True then [JoinThread] else []);
            aborted = (if stream p \<noteq> None then [AbortStream] else []);
            p = (if stream p \<noteq> None then p\<lparr>stream := None\<rparr> else p);
            p = (if audio_clip p \<noteq> None then p\<lparr>audio_clip := None\<rparr> else p);
            p = p\<lparr>audio_array := None\<rparr>;
            p = p\<lparr>initialized := False, playback_started := False\<rparr>
        in (joined @ aborted, p))"

section \<open>Evaluating floats\<close>

text \<open>The equations that evaluate a float operation on numerals.\<close>

lemmas float_eval =
  round64_def ilog2_def pow2_def round_even_def compute_floorlog
  fadd_def fsub_def fmul_def fdiv_def float_of_int_def py_int_def

text \<open>The exponent brackets its argument between two consecutive powers of 2.\<close>

lemma ilog2_bounds:
  assumes "0 < x"
  shows "pow2 (ilog2 x) \<le> x \<and> x < pow2 (ilog2 x + 1)"
proof (cases "1 \<le> x")
  case True
  define n where "n = nat \<lfloor>x\<rfloor>"
  define fl where "fl = floorlog 2 n"
  have n: "0 < n" using True by (simp add: n_def)
  have b: "2 ^ (fl - 1) \<le> n \<and> n < 2 ^ fl"
    unfolding fl_def using floorlog_bounds [of n 2] n by simp
  have fl: "0 < fl" using n by (simp add: fl_def floorlog_def)
  have i: "ilog2 x = int fl - 1" using True by (simp add: ilog2_def n_def fl_def)
  have nx: "real n \<le> x" "x < real n + 1" using True by (simp_all add: n_def)
  have e1: "real (2 ^ (fl - 1)) = 2 ^ (fl - 1)" and e2: "real (2 ^ fl) = 2 ^ fl" by simp_all
  have "real (2 ^ (fl - 1)) \<le> real n" using b by (intro of_nat_mono) simp
  then have lo: "2 ^ (fl - 1) \<le> x" using nx e1 by linarith
  have e3: "real (n + 1) = real n + 1" by simp
  have "real (n + 1) \<le> real (2 ^ fl)" using b by (intro of_nat_mono) simp
  then have hi: "x < 2 ^ fl" using nx e2 e3 by linarith
  have p1: "pow2 (int fl - 1) = 2 ^ (fl - 1)" using fl by (simp add: pow2_def nat_diff_distrib)
  have p2: "pow2 (int fl - 1 + 1) = 2 ^ fl" by (simp add: pow2_def)
  show ?thesis unfolding i p1 p2 using lo hi by simp
next
  case False
  define y where "y = 1 / x"
  define n where "n = nat (\<lceil>y\<rceil> - 1)"
  define fl where "fl = floorlog 2 n"
  have y: "1 < y" using False assms by (simp add: y_def)
  then have c: "2 \<le> \<lceil>y\<rceil>" by linarith
  have n: "0 < n" using c by (simp add: n_def)
  have b: "2 ^ (fl - 1) \<le> n \<and> n < 2 ^ fl"
    unfolding fl_def using floorlog_bounds [of n 2] n by simp
  have fl: "0 < fl" using n by (simp add: fl_def floorlog_def)
  have i: "ilog2 x = - int fl" using False by (simp add: ilog2_def n_def fl_def y_def)
  have ny: "real n < y" "y \<le> real n + 1" using c by (simp_all add: n_def) linarith+
  have e1: "real (2 ^ (fl - 1)) = 2 ^ (fl - 1)" and e2: "real (2 ^ fl) = 2 ^ fl" by simp_all
  have "real (2 ^ (fl - 1)) \<le> real n" using b by (intro of_nat_mono) simp
  then have lo: "2 ^ (fl - 1) < y" using ny e1 by linarith
  have e3: "real (n + 1) = real n + 1" by simp
  have "real (n + 1) \<le> real (2 ^ fl)" using b by (intro of_nat_mono) simp
  then have hi: "y \<le> 2 ^ fl" using ny e2 e3 by linarith
  have p1: "pow2 (- int fl) = 1 / 2 ^ fl" using fl by (simp add: pow2_def)
  have p2: "pow2 (- int fl + 1) = 1 / 2 ^ (fl - 1)"
    using fl by (cases fl) (simp_all add: pow2_def nat_diff_distrib)
  have x: "x = 1 / y" by (simp add: y_def)
  have "1 / 2 ^ fl \<le> 1 / y" using hi y by (simp add: frac_le)
  moreover have "1 / y < 1 / 2 ^ (fl - 1)" using lo by (simp add: frac_less2)
  ultimately have "1 / 2 ^ fl \<le> x \<and> x < 1 / 2 ^ (fl - 1)" unfolding x by (rule conjI)
  then show ?thesis unfolding i p1 p2 .
qed

text \<open>
  Rounding at 1, where the spacing is \<open>2 ^ (- 52)\<close>: a tie goes to the even significand.
  The float \<open>0.1\<close>, and \<open>0.1 + 0.2\<close>, one spacing above the float \<open>0.3\<close>.
\<close>

lemma example_round64:
  "round64 1 = 1"
  "round64 (1 + 1 / 2 ^ 53) = 1"
  "round64 (1 + 3 / 2 ^ 53) = 1 + 1 / 2 ^ 51"
  "round64 (1 / 10) = 3602879701896397 / 2 ^ 55"
  "fadd (round64 (1 / 10)) (round64 (2 / 10)) = round64 (3 / 10) + 1 / 2 ^ 54"
  by (simp_all add: float_eval)

section \<open>Properties of the converters\<close>

subsection \<open>Word arithmetic of the front end\<close>

lemma len_chars: "length ASCII_CHARS = 67"
  by (simp add: ASCII_CHARS_def)

lemma u8_bound: "unat (x :: u8) < 256"
  using unsigned_less [of x, where ?'a = nat] by simp

lemma unat_ucast_u8_u16: "unat (ucast (v :: u8) :: u16) = unat v"
proof -
  have "unat v < 2 ^ 16" using u8_bound [of v] by simp
  then show ?thesis by (simp add: unsigned_ucast_eq take_bit_nat_eq_self)
qed

lemma unat_brightness_px: "unat (brightness_px (r, g, b)) = (unat r + unat g + unat b) div 3"
proof -
  have "(unat r + unat g + unat b) div 3 < 256"
    using u8_bound [of r] u8_bound [of g] u8_bound [of b] by linarith
  then show ?thesis by (simp add: brightness_px_def unat_of_nat)
qed

lemma unat_char_index: "unat (char_index v) = unat v * 66 div 255"
proof -
  have v: "unat v < 256" by (rule u8_bound)
  have m: "unat ((ucast v :: u16) * 66) = unat v * 66"
    using v by (simp add: unat_word_ariths unat_ucast_u8_u16)
  have d: "unat (((ucast v :: u16) * 66) div 255) = unat v * 66 div 255"
    by (simp add: unat_div m)
  have "unat v * 66 div 255 < 2 ^ 8" using v by simp
  then have "unat (ucast (((ucast v :: u16) * 66) div 255) :: u8) = unat v * 66 div 255"
    by (simp add: unsigned_ucast_eq d take_bit_nat_eq_self)
  then show ?thesis
    by (simp add: char_index_def len_chars)
qed

lemma char_index_lt: "unat (char_index v) < 67"
  using u8_bound [of v] by (simp add: unat_char_index)







subsection \<open>What each converter returns\<close>

lemma lut_char_index: "ASCII_LUT ! unat (char_index (brightness_px p)) = spec_glyph p"
  by (cases p)
     (simp add: spec_glyph_def spec_glyph_index_def ASCII_LUT_def unat_char_index unat_brightness_px)

lemma front_end_glyphs:
  "lut_lookup ASCII_LUT (char_indices (brightness rgb)) = Inr (map (map spec_glyph) rgb)"
proof -
  have "list_all (list_all (\<lambda>k. unat k < length ASCII_LUT)) (char_indices (brightness rgb))"
    using char_index_lt
    by (simp add: list_all_iff char_indices_def brightness_def ASCII_LUT_def len_chars)
  then show ?thesis
    by (simp add: lut_lookup_def char_indices_def brightness_def lut_char_index)
qed



lemma plain_variant:
  "frame_to_ascii_curses interp (frame, w) =
     (if snd (shape frame) = 0 then Inl ZeroDivisionError
      else case cv2_resize interp frame (w, new_height_plain (fst (shape frame)) (snd (shape frame)) w) of
             Inl e \<Rightarrow> Inl e
           | Inr resized \<Rightarrow> Inr (join_nl (map (map (\<lambda>(b, g, r). spec_glyph (r, g, b))) resized)))"
  by (simp add: frame_to_ascii_curses_def Let_def front_end_glyphs cvtColor_BGR2RGB_def
        split: prod.splits sum.splits) (simp add: case_prod_unfold comp_def)




subsection \<open>The converters on a concrete frame\<close>

lemma new_height_plain_eq:
  "new_height_plain height width new_width =
     py_int (fmul (fmul (fdiv (real height) (real width)) (float_of_int new_width)) (1 / 2))"
  by (simp add: new_height_plain_def Let_def)

lemma new_height_color_eq:
  "new_height_color height width new_width =
     max (py_int (fmul (fmul (fdiv (real height) (real width)) (float_of_int new_width)) (1 / 2))) 1"
  by (simp add: new_height_color_def Let_def)

lemma example_height:
  "new_height_color 2 2 2 = 1" "new_height_plain 2 2 2 = 1"
  "new_height_plain 1 4 1 = 0" "new_height_color 1 4 1 = 1" "new_height_plain 1 4 2 = 0"
  unfolding new_height_plain_eq new_height_color_eq by (simp_all add: float_eval)

text \<open>
  The quotient and the products are rounded: \<open>2/49 * 49 * 0.5\<close> rounds below 1, and
  \<open>240/352 * 88 * 0.5\<close> below 30.
\<close>

lemma example_height_rounding:
  "new_height_plain 2 49 49 = 0"
  "new_height_color 1 49 196 = 1"
  "new_height_color 240 352 88 = 29"
  unfolding new_height_plain_eq new_height_color_eq by (simp_all add: float_eval)

lemma example_shape:
  "shape [[(0, 0, 255), (255, 0, 0)], [(10, 20, 30), (255, 255, 255)]] = (2, 2)"
  "shape [[(0, 0, 0), (0, 0, 0), (0, 0, 0), (0, 0, 0)]] = (1, 4)"
  by (simp_all add: shape_def)

lemma example_resized_at:
  "cv2_resize sample_nearest [[(0, 0, 255), (255, 0, 0)], [(10, 20, 30), (255, 255, 255)]]
     (2, 1) = Inr [[(0, 0, 255), (255, 0, 0)]]"
  by code_simp



lemma example_glyph:
  "spec_glyph_index (128, 128, 128) = 33" "spec_glyph (0, 0, 255) = CHR ''1''"
  "spec_glyph (255, 0, 0) = CHR ''1''"
  by (simp_all add: spec_glyph_def spec_glyph_index_def ASCII_CHARS_def)



lemma example_plain:
  "frame_to_ascii_curses sample_nearest
     ([[(0, 0, 255), (255, 0, 0)], [(10, 20, 30), (255, 255, 255)]], 2) = Inr ''11''"
  unfolding plain_variant example_shape fst_conv snd_conv example_height example_resized_at
  by (simp add: example_glyph)

subsection \<open>Claim C1: the row count of the converters\<close>

text \<open>
  C1 claims that each of the three converters returns \<open>max(1, floor(H/W * w * 0.5))\<close> rows
  of width \<open>w\<close>. Only \<open>frame_to_ascii_curses_color\<close> takes the maximum with 1 (line 133).
  \<open>frame_to_ascii\<close> and \<open>frame_to_ascii_curses\<close> compute \<open>int(H/W * w * 0.5)\<close> alone
  (lines 47 and 100): for a frame of width 4 and height 1 and target width 1 the height
  is \<open>int(0.125) = 0\<close> (all values exact in binary floating point), and \<open>cv2.resize\<close>
  raises instead of returning a frame, whatever the sampler.
\<close>

theorem C1_plain_variants_zero_height:
  "new_height_plain 1 4 1 = 0 \<and>
   new_height_color 1 4 1 = 1 \<and>
   frame_to_ascii interp ([[(0, 0, 0), (0, 0, 0), (0, 0, 0), (0, 0, 0)]], 1) = Inl Cv2Error \<and>
   frame_to_ascii_curses interp ([[(0, 0, 0), (0, 0, 0), (0, 0, 0), (0, 0, 0)]], 1) = Inl Cv2Error"
  unfolding frame_to_ascii_def frame_to_ascii_curses_def prod.case example_shape example_height Let_def
  by (simp add: cv2_resize_def)

subsection \<open>Claim C3: the glyph of a pixel\<close>



subsection \<open>Claim C4: the palette index of a pixel\<close>



section \<open>Properties of the extractor and of the converter loop\<close>

subsection \<open>Claim C6: the extractor when the video does not open\<close>

text \<open>
  C6 claims that, when opening the video source fails, the extractor places the
  end-of-stream marker on \<open>raw_queue\<close>: exactly one, with no frame before it. The guard of
  lines 177-179 prints the error and returns before the \<open>try\<close> statement whose \<open>finally\<close>
  clause puts the marker (line 192, "signals the end of the stream"), so for a capture
  that is not open nothing at all is put on the queue, whatever the reads and the frame
  rate; a capture that opened and has no frame ends with the one marker.
\<close>

theorem C6_open_failure_no_eos:
  "extract_frames \<lparr>isOpened = False, reads = rs\<rparr> fps = ([Print ''Errore: impossibile aprire il video.''], None) \<and>
   raw_queue_of (fst (extract_frames \<lparr>isOpened = False, reads = rs\<rparr> fps)) = [] \<and>
   raw_queue_of (fst (extract_frames \<lparr>isOpened = True, reads = [NoFrame]\<rparr> 10)) = [None]"
  by (simp add: extract_frames_def)

subsection \<open>The extractor on a capture that opened\<close>

text \<open>
  On every other way out (the video ends, a read fails, the loop is interrupted, the
  sleep raises) the queue holds the frames read and then the one marker.
\<close>

lemma raw_queue_of_append: "raw_queue_of (es @ es') = raw_queue_of es @ raw_queue_of es'"
  by (induction es rule: raw_queue_of.induct) simp_all

lemma read_loop_frames_only: "\<exists>fs. raw_queue_of (fst (read_loop rs frame_time)) = map Some fs"
proof (induction rs frame_time rule: read_loop.induct)
  case (4 frame rs frame_time)
  show ?case
  proof (cases "frame_time < 0")
    case True
    then show ?thesis by (simp add: exI [of _ "[frame]"])
  next
    case False
    with 4 obtain fs where "raw_queue_of (fst (read_loop rs frame_time)) = map Some fs" by auto
    then show ?thesis using False
      by (cases "read_loop rs frame_time") (simp add: exI [of _ "frame # fs"])
  qed
qed simp_all

lemma extract_frames_opened_ends_with_eos:
  "isOpened cap \<Longrightarrow> fps \<noteq> 0 \<Longrightarrow>
   \<exists>fs. raw_queue_of (fst (extract_frames cap fps)) = map Some fs @ [None]"
  using read_loop_frames_only [of "reads cap" "fdiv 1 (real_of_int fps)"]
  by (auto simp: extract_frames_def raw_queue_of_append split: prod.splits)

subsection \<open>The converter loop, round by round\<close>

lemma collect_frames:
  "collect n evs batch w = (batch', stopped, rest) \<Longrightarrow>
   \<exists>fs. batch' = batch @ map (\<lambda>f. (f, w)) fs \<and>
        frames_before_eos evs = fs @ (if stopped then [] else frames_before_eos rest)"
proof (induction n evs batch w arbitrary: batch' stopped rest rule: collect.induct)
  case (5 n frame evs batch new_width)
  then obtain fs where "batch' = (batch @ [(frame, new_width)]) @ map (\<lambda>f. (f, new_width)) fs"
    and "frames_before_eos evs = fs @ (if stopped then [] else frames_before_eos rest)"
    by auto
  then show ?case by (intro exI [of _ "frame # fs"]) simp
qed auto

lemma pool_map_all_ok:
  "\<forall>x \<in> set xs. \<exists>y. f x = Inr y \<Longrightarrow> pool_map f xs = Inr (map (\<lambda>x. projr (f x)) xs)"
  by (induction xs) auto

lemma ascii_queue_of_append: "ascii_queue_of (es @ es') = ascii_queue_of es @ ascii_queue_of es'"
  by (induction es rule: ascii_queue_of.induct) simp_all

lemma ascii_queue_of_puts: "ascii_queue_of (map (\<lambda>x. PutAscii (g x)) xs) = map g xs"
  by (induction xs) simp_all

lemma ascii_queue_of_puts_id: "ascii_queue_of (map PutAscii xs) = xs"
  by (induction xs) simp_all

lemma convert_round_queue:
  assumes ok: "\<forall>f \<in> set (frames_before_eos evs). \<exists>a. conv (f, w) = Inr a"
    and r: "convert_round conv bs w evs = (effects, go_on, rest)"
  shows "map (\<lambda>f. projr (conv (f, w))) (frames_before_eos evs) =
           ascii_queue_of effects @ (if go_on then map (\<lambda>f. projr (conv (f, w))) (frames_before_eos rest) else [])"
proof -
  obtain batch stopped rest' where c: "collect bs evs [] w = (batch, stopped, rest')"
    by (cases "collect bs evs [] w") auto
  from collect_frames [OF c] obtain fs where
    b: "batch = map (\<lambda>f. (f, w)) fs" and
    f: "frames_before_eos evs = fs @ (if stopped then [] else frames_before_eos rest')"
    by auto
  have "\<forall>x \<in> set batch. \<exists>y. conv x = Inr y" using ok b f by auto
  then have pm: "pool_map conv batch = Inr (map (\<lambda>x. projr (conv x)) batch)"
    by (rule pool_map_all_ok)
  show ?thesis
  proof (cases "batch = []")
    case True
    then have "fs = []" using b by simp
    then show ?thesis using r c True f
      by (auto simp: convert_round_def)
  next
    case False
    then show ?thesis using r c pm f b
      by (auto simp: convert_round_def ascii_queue_of_append ascii_queue_of_puts comp_def)
  qed
qed

lemma convert_round_frames_rest:
  assumes ok: "\<forall>f \<in> set (frames_before_eos evs). \<exists>a. conv (f, w) = Inr a"
    and r: "convert_round conv bs w evs = (effects, True, rest)"
  shows "set (frames_before_eos rest) \<subseteq> set (frames_before_eos evs)"
proof -
  obtain batch stopped rest' where c: "collect bs evs [] w = (batch, stopped, rest')"
    by (cases "collect bs evs [] w") auto
  from collect_frames [OF c] obtain fs where
    f: "frames_before_eos evs = fs @ (if stopped then [] else frames_before_eos rest')"
    by auto
  have "rest = rest'" using convert_round_rest [of conv bs w evs] r c by simp
  moreover have "\<not> stopped" using r c by (auto simp: convert_round_def Let_def split: if_splits sum.splits)
  ultimately show ?thesis using f by auto
qed

lemma convert_frames_unfold:
  "0 < bs \<Longrightarrow> evs \<noteq> [] \<Longrightarrow> convert_round conv bs w evs = (effects, go_on, rest) \<Longrightarrow>
   convert_frames conv bs w evs =
     (if go_on then (effects @ fst (convert_frames conv bs w rest), snd (convert_frames conv bs w rest))
      else (effects, Returned))"
  by (simp add: convert_frames.simps [of conv bs w evs] split: prod.splits)

lemma convert_frames_queue:
  "0 < bs \<Longrightarrow> \<forall>f \<in> set (frames_before_eos evs). \<exists>a. conv (f, w) = Inr a \<Longrightarrow>
   ascii_queue_of (fst (convert_frames conv bs w evs)) = map (\<lambda>f. projr (conv (f, w))) (frames_before_eos evs)"
proof (induction conv bs w evs rule: convert_frames.induct)
  case (1 conv bs w evs)
  show ?case
  proof (cases "evs = []")
    case True
    then show ?thesis by (simp add: convert_frames.simps)
  next
    case False
    obtain effects go_on rest where r: "convert_round conv bs w evs = (effects, go_on, rest)"
      by (cases "convert_round conv bs w evs") auto
    note q = convert_round_queue [OF "1.prems"(2) r]
    show ?thesis
    proof (cases go_on)
      case True
      have r': "convert_round conv bs w evs = (effects, True, rest)" using r True by simp
      have sub: "\<forall>f \<in> set (frames_before_eos rest). \<exists>a. conv (f, w) = Inr a"
        using convert_round_frames_rest [OF "1.prems"(2) r'] "1.prems"(2) by blast
      have ih: "ascii_queue_of (fst (convert_frames conv bs w rest)) =
                map (\<lambda>f. projr (conv (f, w))) (frames_before_eos rest)"
        using "1.IH" [OF _ r [symmetric] refl True] 
          False "1.prems"(1) sub by simp
      show ?thesis
        using True q ih
        by (simp add: convert_frames_unfold [OF "1.prems"(1) False r] ascii_queue_of_append)
    next
      case False
      then show ?thesis
        using q by (simp add: convert_frames_unfold [OF "1.prems"(1) \<open>evs \<noteq> []\<close> r])
    qed
  qed
qed


lemma collect_eos:
  "length fs < n \<Longrightarrow>
   collect n (map Got fs @ GotNone # rest) batch w = (batch @ map (\<lambda>f. (f, w)) fs, True, rest)"
proof (induction fs arbitrary: n batch)
  case Nil
  then show ?case by (cases n) simp_all
next
  case (Cons f fs)
  then show ?case by (cases n) simp_all
qed

lemma collect_keeps_eos:
  "collect n evs batch w = (batch', False, rest) \<Longrightarrow> GotNone \<in> set evs \<Longrightarrow> GotNone \<in> set rest"
  by (induction n evs batch w rule: collect.induct) auto

lemma convert_frames_returns:
  "0 < bs \<Longrightarrow> GotNone \<in> set evs \<Longrightarrow> snd (convert_frames conv bs w evs) = Returned"
proof (induction conv bs w evs rule: convert_frames.induct)
  case (1 conv bs w evs)
  have ne: "evs \<noteq> []" using "1.prems"(2) by auto
  obtain effects go_on rest where r: "convert_round conv bs w evs = (effects, go_on, rest)"
    by (cases "convert_round conv bs w evs") auto
  show ?case
  proof (cases go_on)
    case True
    obtain batch stopped rest' where c: "collect bs evs [] w = (batch, stopped, rest')"
      by (cases "collect bs evs [] w") auto
    have "rest = rest'" using convert_round_rest [of conv bs w evs] r c by simp
    moreover have "\<not> stopped"
      using r c True by (auto simp: convert_round_def Let_def split: if_splits sum.splits)
    ultimately have "collect bs evs [] w = (batch, False, rest)" using c by simp
    then have "GotNone \<in> set rest" using "1.prems"(2) by (rule collect_keeps_eos)
    then have "snd (convert_frames conv bs w rest) = Returned"
      using "1.IH" [OF _ r [symmetric] refl True] ne "1.prems"(1) by simp
    then show ?thesis using True by (simp add: convert_frames_unfold [OF "1.prems"(1) ne r])
  next
    case False
    then show ?thesis by (simp add: convert_frames_unfold [OF "1.prems"(1) ne r])
  qed
qed

lemma example_plain_fails:
  "frame_to_ascii_curses sample_nearest ([[(0, 0, 0), (0, 0, 0), (0, 0, 0), (0, 0, 0)]], 2) = Inl Cv2Error"
  unfolding frame_to_ascii_curses_def prod.case example_shape example_height Let_def
  by (simp add: cv2_resize_def)

subsection \<open>Claim C7: the end-of-stream marker, the stop event and the last batch\<close>

text \<open>
  C7 as stated (the partial batch is enqueued first, the stop event is set only after
  that) fails: with batch size 2 and one frame followed by the marker, the stop event is
  set before the frame's conversion is put on \<open>ascii_queue\<close>.
\<close>

theorem C7_flush_then_stop_counterexample:
  "convert_frames (frame_to_ascii_curses sample_nearest) 2 2
      [Got [[(0, 0, 255), (255, 0, 0)], [(10, 20, 30), (255, 255, 255)]], GotNone]
   = ([SetStop, PutAscii ''11''], Returned)"
  by (simp add: convert_frames.simps convert_round_def example_plain numeral_2_eq_2)

text \<open>
  C7, amended: when the converter dequeues the end-of-stream marker it sets the shared
  stop event at once (line 219); it then converts the frames collected in the current
  partial batch and, when no conversion raises, puts their results on \<open>ascii_queue\<close> in
  order, and returns. This holds for the round that meets the marker after fewer than
  \<open>batch_size\<close> frames, and so for the loop started at that round.
\<close>

theorem C7_stop_then_flush:
  assumes "length fs < batch_size"
    and "pool_map conv (map (\<lambda>f. (f, w)) fs) = Inr ascii_frames"
  shows "convert_round conv batch_size w (map Got fs @ GotNone # rest) =
           (SetStop # map PutAscii ascii_frames, False, rest) \<and>
         convert_frames conv batch_size w (map Got fs @ GotNone # rest) =
           (SetStop # map PutAscii ascii_frames, Returned)"
proof -
  have c: "collect batch_size (map Got fs @ GotNone # rest) [] w = (map (\<lambda>f. (f, w)) fs, True, rest)"
    using collect_eos [OF assms(1), of rest "[]" w] by simp
  have af: "fs = [] \<Longrightarrow> ascii_frames = []" using assms(2) by auto
  have r: "convert_round conv batch_size w (map Got fs @ GotNone # rest) =
             (SetStop # map PutAscii ascii_frames, False, rest)"
    using c assms(2) af by (cases "fs = []") (simp_all add: convert_round_def Let_def)
  have "0 < batch_size" using assms(1) by simp
  then show ?thesis using r by (simp add: convert_frames_unfold [OF _ _ r])
qed

theorem C7_stop_then_flush_witness:
  "pool_map (frame_to_ascii_curses sample_nearest)
     (map (\<lambda>f. (f, 2)) [[[(0, 0, 255), (255, 0, 0)], [(10, 20, 30), (255, 255, 255)]]]) = Inr [''11''] \<and>
   convert_frames (frame_to_ascii_curses sample_nearest) 2 2
     (map Got [[[(0, 0, 255), (255, 0, 0)], [(10, 20, 30), (255, 255, 255)]]] @ GotNone # [Empty]) =
     (SetStop # map PutAscii [''11''], Returned)"
proof -
  let ?F = "[[(0, 0, 255), (255, 0, 0)], [(10, 20, 30), (255, 255, 255)]] :: image"
  have l: "length [?F] < 2" by simp
  have p: "pool_map (frame_to_ascii_curses sample_nearest) (map (\<lambda>f. (f, 2)) [?F]) = Inr [''11'']"
    by (simp add: example_plain)
  from C7_stop_then_flush [OF l p, of "[Empty]"] p show ?thesis by blast
qed

subsection \<open>Claim C5: the batch size and the sequence of converted frames\<close>

text \<open>
  C5 as stated (for every input frame sequence the frames enqueued with batch size \<open>k\<close>
  are those enqueued with batch size 1) fails when a conversion raises: \<open>pool.map\<close> then
  raises for the whole batch and the loop breaks (lines 227-231), so the frames converted
  earlier in the same batch are lost, while with batch size 1 they were already enqueued.
  Here the second frame (width 4, height 1, target width 2) makes \<open>frame_to_ascii_curses\<close>
  raise.
\<close>

theorem C5_batch_size_counterexample:
  "ascii_queue_of (fst (convert_frames (frame_to_ascii_curses sample_nearest) 2 2
      [Got [[(0, 0, 255), (255, 0, 0)], [(10, 20, 30), (255, 255, 255)]],
       Got [[(0, 0, 0), (0, 0, 0), (0, 0, 0), (0, 0, 0)]], GotNone])) = [] \<and>
   ascii_queue_of (fst (convert_frames (frame_to_ascii_curses sample_nearest) 1 2
      [Got [[(0, 0, 255), (255, 0, 0)], [(10, 20, 30), (255, 255, 255)]],
       Got [[(0, 0, 0), (0, 0, 0), (0, 0, 0), (0, 0, 0)]], GotNone])) = [''11'']"
  by (simp add: convert_frames.simps convert_round_def example_plain example_plain_fails
        numeral_2_eq_2)

text \<open>
  C5, amended: when the conversion of every frame of the input sequence succeeds, then
  for every \<open>k \<ge> 1\<close> the sequence of frames put on \<open>ascii_queue\<close> with batch size \<open>k\<close> is,
  element by element and in order, the one put with batch size 1, namely the conversions
  of the input frames in input order; and this whatever calls to \<open>get\<close> time out in either
  run.
\<close>

theorem C5_batch_size_irrelevant:
  assumes "1 \<le> k"
    and "frames_before_eos evs = frames_before_eos evs'"
    and "\<forall>f \<in> set (frames_before_eos evs). \<exists>a. conv (f, w) = Inr a"
  shows "ascii_queue_of (fst (convert_frames conv k w evs)) =
           ascii_queue_of (fst (convert_frames conv 1 w evs')) \<and>
         ascii_queue_of (fst (convert_frames conv k w evs)) =
           map (\<lambda>f. projr (conv (f, w))) (frames_before_eos evs)"
  using assms convert_frames_queue [of k evs conv w] convert_frames_queue [of 1 evs' conv w]
  by simp

theorem C5_batch_size_irrelevant_witness:
  "frames_before_eos [Got [[(0, 0, 255), (255, 0, 0)], [(10, 20, 30), (255, 255, 255)]],
                      Got [[(0, 0, 255), (255, 0, 0)], [(10, 20, 30), (255, 255, 255)]], Empty, GotNone] =
   frames_before_eos [Got [[(0, 0, 255), (255, 0, 0)], [(10, 20, 30), (255, 255, 255)]], Empty,
                      Got [[(0, 0, 255), (255, 0, 0)], [(10, 20, 30), (255, 255, 255)]], GotNone] \<and>
   frame_to_ascii_curses sample_nearest ([[(0, 0, 255), (255, 0, 0)], [(10, 20, 30), (255, 255, 255)]], 2) = Inr ''11'' \<and>
   ascii_queue_of (fst (convert_frames (frame_to_ascii_curses sample_nearest) 2 2
     [Got [[(0, 0, 255), (255, 0, 0)], [(10, 20, 30), (255, 255, 255)]],
      Got [[(0, 0, 255), (255, 0, 0)], [(10, 20, 30), (255, 255, 255)]], Empty, GotNone])) =
   ascii_queue_of (fst (convert_frames (frame_to_ascii_curses sample_nearest) 1 2
     [Got [[(0, 0, 255), (255, 0, 0)], [(10, 20, 30), (255, 255, 255)]], Empty,
      Got [[(0, 0, 255), (255, 0, 0)], [(10, 20, 30), (255, 255, 255)]], GotNone])) \<and>
   ascii_queue_of (fst (convert_frames (frame_to_ascii_curses sample_nearest) 2 2
     [Got [[(0, 0, 255), (255, 0, 0)], [(10, 20, 30), (255, 255, 255)]],
      Got [[(0, 0, 255), (255, 0, 0)], [(10, 20, 30), (255, 255, 255)]], Empty, GotNone])) = [''11'', ''11'']"
proof -
  let ?F = "[[(0, 0, 255), (255, 0, 0)], [(10, 20, 30), (255, 255, 255)]] :: image"
  let ?evs = "[Got ?F, Got ?F, Empty, GotNone]"
  let ?evs' = "[Got ?F, Empty, Got ?F, GotNone]"
  let ?conv = "frame_to_ascii_curses sample_nearest"
  have k: "(1::nat) \<le> 2" by simp
  have f: "frames_before_eos ?evs = frames_before_eos ?evs'" by simp
  have ok: "\<forall>f \<in> set (frames_before_eos ?evs). \<exists>a. ?conv (f, 2) = Inr a"
    by (simp add: example_plain)
  note c = C5_batch_size_irrelevant [OF k f ok]
  have a: "ascii_queue_of (fst (convert_frames ?conv 2 2 ?evs)) =
             ascii_queue_of (fst (convert_frames ?conv 1 2 ?evs'))"
    by (rule conjunct1 [OF c])
  have b: "ascii_queue_of (fst (convert_frames ?conv 2 2 ?evs)) = [''11'', ''11'']"
    using conjunct2 [OF c] by (simp add: example_plain)
  show ?thesis using f example_plain a b by blast
qed


section \<open>Properties of the ANSI direct-write renderer\<close>

subsection \<open>The line diff and the writes applied to the grid\<close>

lemma line_differs_iff: "line_differs a b \<longleftrightarrow> a \<noteq> b"
proof (cases "length a = length b")
  case True
  have "line_differs a b \<longleftrightarrow> (\<exists>j < length a. a ! j \<noteq> b ! j)"
    using True by (simp add: line_differs_def list_ex_iff) (metis atLeast0LessThan lessThan_iff not_le)
  also have "\<dots> \<longleftrightarrow> a \<noteq> b"
    using True by (simp add: list_eq_iff_nth_eq) 
  finally show ?thesis .
next
  case False
  then have "a \<noteq> b" by auto
  then show ?thesis using False by (simp add: line_differs_def)
qed

lemma fast_diff_lines_set:
  "i \<in> set (fast_diff_lines new old m) \<longleftrightarrow>
     i < m \<and> (i < length new \<or> i < length old) \<and> grid_row new i \<noteq> grid_row old i"
  by (auto simp: fast_diff_lines_def Let_def line_differs_iff grid_row_def)

lemma fast_diff_lines_distinct: "distinct (fast_diff_lines new old m)"
  by (simp add: fast_diff_lines_def Let_def)

lemma diff_writes_map:
  "diff_writes new prev =
     map (\<lambda>i. (Suc i, padded new prev i))
         (filter (\<lambda>i. i < length new) (fast_diff_lines new prev (max (length new) (length prev))))"
proof -
  have c: "concat (map (\<lambda>i. if P i then [f i] else []) xs) = map f (filter P xs)" for P f and xs :: "nat list"
    by (induction xs) simp_all
  have "(\<lambda>i. if i < length new then
             let new_line = new ! i;
                 new_line = (if i < length prev then
                               let old_line = prev ! i in
                               if length new_line < length old_line
                               then new_line @ replicate (length old_line - length new_line) CHR '' ''
                               else new_line
                             else new_line)
             in [(i + 1, new_line)]
           else []) = (\<lambda>i. if i < length new then [(Suc i, padded new prev i)] else [])"
    by (rule ext) (simp add: padded_def grid_row_def Let_def)
  then show ?thesis by (simp add: diff_writes_def Let_def c)
qed

lemma grid_row_write_line:
  "grid_row (write_line g (row, text)) i =
     (if i = row - 1 then overwrite (grid_row g i) text else grid_row g i)"
  by (auto simp: write_line_def grid_row_def Let_def nth_append nth_list_update)

lemma apply_writes_untouched:
  "\<forall>w \<in> set ws. fst w - 1 \<noteq> i \<Longrightarrow> grid_row (apply_writes g ws) i = grid_row g i"
proof (induction ws arbitrary: g)
  case Nil
  show ?case by simp
next
  case (Cons w ws)
  obtain row s where w: "w = (row, s)" by (cases w)
  show ?case using Cons by (simp add: w grid_row_write_line)
qed

lemma apply_writes_written:
  "distinct (map (\<lambda>w. fst w - 1) ws) \<Longrightarrow> (row, text) \<in> set ws \<Longrightarrow>
   grid_row (apply_writes g ws) (row - 1) = overwrite (grid_row g (row - 1)) text"
proof (induction ws arbitrary: g)
  case Nil
  then show ?case by simp
next
  case (Cons w ws)
  obtain r t where w: "w = (r, t)" by (cases w)
  show ?case
  proof (cases "(row, text) = w")
    case True
    have "\<forall>v \<in> set ws. fst v - 1 \<noteq> row - 1" using Cons.prems(1) True by (force simp: w image_iff)
    then have "grid_row (apply_writes (write_line g w) ws) (row - 1) = grid_row (write_line g w) (row - 1)"
      by (rule apply_writes_untouched)
    then show ?thesis using True by (simp add: w grid_row_write_line)
  next
    case False
    then have in_ws: "(row, text) \<in> set ws" using Cons.prems(2) by simp
    have d: "distinct (map (\<lambda>w. fst w - 1) ws)" using Cons.prems(1) by simp
    have "row - 1 \<in> (\<lambda>w. fst w - 1) ` set ws" using in_ws by force
    moreover have "r - 1 \<notin> (\<lambda>w. fst w - 1) ` set ws" using Cons.prems(1) by (simp add: w)
    ultimately have ne: "r - 1 \<noteq> row - 1" by metis
    have "grid_row (apply_writes (write_line g w) ws) (row - 1) =
          overwrite (grid_row (write_line g w) (row - 1)) text"
      using Cons.IH [OF d in_ws] .
    then show ?thesis using ne by (simp add: w grid_row_write_line)
  qed
qed

lemma overwrite_padded:
  "overwrite (grid_row prev i) (padded new prev i) = padded new prev i"
  by (simp add: overwrite_def padded_def)

lemma diff_writes_rows_distinct: "distinct (map (\<lambda>w. fst w - 1) (diff_writes new prev))"
  by (simp add: diff_writes_map comp_def distinct_map_filter fast_diff_lines_distinct)

lemma diff_writes_row_below:
  "(row, text) \<in> set (diff_writes new prev) \<Longrightarrow> 1 \<le> row \<and> row - 1 < length new"
  by (auto simp: diff_writes_map)

lemma grid_after_diff_below:
  assumes "i < length new"
  shows "grid_row (apply_writes prev (diff_writes new prev)) i = padded new prev i"
proof (cases "grid_row new i = grid_row prev i")
  case True
  have "\<forall>w \<in> set (diff_writes new prev). fst w - 1 \<noteq> i"
    using True by (auto simp: diff_writes_map fast_diff_lines_set)
  then have "grid_row (apply_writes prev (diff_writes new prev)) i = grid_row prev i"
    by (rule apply_writes_untouched)
  also have "\<dots> = padded new prev i"
    using True assms by (simp add: padded_def grid_row_def)
  finally show ?thesis .
next
  case False
  have "i \<in> set (fast_diff_lines new prev (max (length new) (length prev)))"
    using False assms by (simp add: fast_diff_lines_set)
  then have "(Suc i, padded new prev i) \<in> set (diff_writes new prev)"
    using assms by (simp add: diff_writes_map)
  from apply_writes_written [OF diff_writes_rows_distinct this, of prev]
  show ?thesis by (simp add: overwrite_padded)
qed

lemma grid_after_diff_beyond:
  assumes "length new \<le> i"
  shows "grid_row (apply_writes prev (diff_writes new prev)) i = grid_row prev i"
proof -
  have "\<forall>w \<in> set (diff_writes new prev). fst w - 1 \<noteq> i"
    using assms by (auto simp: diff_writes_map)
  then show ?thesis by (rule apply_writes_untouched)
qed

lemma render_frame_diff:
  "prev_frame_lines st = Some prev \<Longrightarrow> tsize = prev_terminal_size st \<Longrightarrow>
   render_frame st ascii_frame tsize =
     ([LineWrites (diff_writes (split_nl ascii_frame) prev)], st\<lparr>prev_frame_lines := Some (split_nl ascii_frame)\<rparr>)"
  by (simp add: render_frame_def Let_def)

subsection \<open>Claim C2: the grid after a frame\<close>

text \<open>
  C2 as stated (with no resize, applying the emitted writes to a grid that starts equal
  to the previous mirror yields a grid equal to the new frame on all rows) fails when the
  new frame has fewer lines than the mirror: the guard of line 337 skips the rows beyond
  the new frame, so the grid keeps the old text there. With mirror \<open>ab\<close>, \<open>cd\<close> and new
  frame \<open>ab\<close> nothing is written and row 2 of the grid still reads \<open>cd\<close>, where the new
  frame has no row.
\<close>

theorem C2_grid_counterexample:
  "render_frame \<lparr>prev_frame_lines = Some [''ab'', ''cd''], prev_terminal_size = (80, 24)\<rparr> ''ab'' (80, 24) =
     ([LineWrites []], \<lparr>prev_frame_lines = Some [''ab''], prev_terminal_size = (80, 24)\<rparr>) \<and>
   apply_writes [''ab'', ''cd'']
     (line_writes_of (fst (render_frame \<lparr>prev_frame_lines = Some [''ab'', ''cd''], prev_terminal_size = (80, 24)\<rparr>
                             ''ab'' (80, 24)))) = [''ab'', ''cd''] \<and>
   grid_row [''ab'', ''cd''] 1 = ''cd'' \<and>
   grid_row (split_nl ''ab'') 1 = []"
  by code_simp

text \<open>
  C2, amended: with the mirror present and no resize, applying the cursor moves and line
  writes of a frame to a grid that starts equal to the previous mirror yields a grid
  whose row, at every index below the new frame's line count, is the new frame's line,
  followed only by the spaces that cover what the old row had beyond its length; and the
  mirror becomes the new frame's lines.
\<close>

theorem C2_grid_rows_of_new_frame:
  assumes "prev_frame_lines st = Some prev"
    and "tsize = prev_terminal_size st"
    and "i < length (split_nl ascii_frame)"
  shows "grid_row (apply_writes prev (line_writes_of (fst (render_frame st ascii_frame tsize)))) i =
           split_nl ascii_frame ! i @
           replicate (length (grid_row prev i) - length (split_nl ascii_frame ! i)) CHR '' '' \<and>
         prev_frame_lines (snd (render_frame st ascii_frame tsize)) = Some (split_nl ascii_frame)"
  using grid_after_diff_below [OF assms(3), of prev]
  by (simp add: render_frame_diff [OF assms(1,2)] padded_def)

theorem C2_grid_rows_of_new_frame_witness:
  "grid_row (apply_writes [''abc'', ''x'']
     (line_writes_of (fst (render_frame \<lparr>prev_frame_lines = Some [''abc'', ''x''], prev_terminal_size = (80, 24)\<rparr>
                             (''a'' @ [CHR 0x0A] @ ''xy'') (80, 24))))) 0 = ''a  '' \<and>
   split_nl (''a'' @ [CHR 0x0A] @ ''xy'') = [''a'', ''xy''] \<and>
   line_writes_of (fst (render_frame \<lparr>prev_frame_lines = Some [''abc'', ''x''], prev_terminal_size = (80, 24)\<rparr>
                             (''a'' @ [CHR 0x0A] @ ''xy'') (80, 24))) = [(1, ''a  ''), (2, ''xy'')]"
proof -
  let ?st = "\<lparr>prev_frame_lines = Some [''abc'', ''x''], prev_terminal_size = (80 :: nat, 24 :: nat)\<rparr>"
  let ?f = "''a'' @ [CHR 0x0A] @ ''xy''"
  have s: "split_nl ?f = [''a'', ''xy'']" by simp
  have h1: "prev_frame_lines ?st = Some [''abc'', ''x'']" by simp
  have h2: "(80, 24) = prev_terminal_size ?st" by simp
  have h3: "0 < length (split_nl ?f)" by (simp only: s) simp
  have w: "line_writes_of (fst (render_frame ?st ?f (80, 24))) = [(1, ''a  ''), (2, ''xy'')]"
    by code_simp
  from C2_grid_rows_of_new_frame [OF h1 h2 h3]
  have "grid_row (apply_writes [''abc'', ''x''] (line_writes_of (fst (render_frame ?st ?f (80, 24))))) 0 =
          split_nl ?f ! 0 @ replicate (length (grid_row [''abc'', ''x''] 0) - length (split_nl ?f ! 0)) CHR '' ''"
    by (rule conjunct1)
  also have "\<dots> = ''a  ''" by (simp only: s) (simp add: grid_row_def numeral_2_eq_2)
  finally show ?thesis using s w by blast
qed

subsection \<open>Claim C9: the rows beyond a shorter frame\<close>

text \<open>
  C9 as stated says that the line diff reports every index at or beyond the new frame's
  line count as differing. It does not report an index whose old line is empty: the
  missing new line counts as the empty string too (line 261). With mirror \<open>a\<close> and an
  empty second line, and new frame \<open>a\<close>, the diff is empty.
\<close>

theorem C9_diff_counterexample:
  "split_nl ''a'' = [''a''] \<and> length (split_nl ''a'') < length [''a'', ''''] \<and>
   fast_diff_lines (split_nl ''a'') [''a'', ''''] (max (length (split_nl ''a'')) (length [''a'', ''''])) = []"
  by code_simp

text \<open>
  C9, amended: with the mirror present, no resize and a new frame of fewer lines than the
  mirror, every write addresses a row below the new frame's line count, so none
  addresses a row index \<open>i\<close> at or beyond it, and the grid keeps the mirror's line there;
  this although the line diff reports \<open>i\<close> as differing, which it does exactly when the old
  line is not empty.
\<close>

theorem C9_trailing_rows_untouched:
  assumes "prev_frame_lines st = Some prev"
    and "tsize = prev_terminal_size st"
    and "length (split_nl ascii_frame) < length prev"
    and "length (split_nl ascii_frame) \<le> i" and "i < length prev"
  shows "list_all (\<lambda>w. 1 \<le> fst w \<and> fst w - 1 < length (split_nl ascii_frame))
           (line_writes_of (fst (render_frame st ascii_frame tsize))) \<and>
         list_all (\<lambda>w. fst w - 1 \<noteq> i) (line_writes_of (fst (render_frame st ascii_frame tsize))) \<and>
         grid_row (apply_writes prev (line_writes_of (fst (render_frame st ascii_frame tsize)))) i = prev ! i \<and>
         (i \<in> set (fast_diff_lines (split_nl ascii_frame) prev
                     (max (length (split_nl ascii_frame)) (length prev)))
            \<longleftrightarrow> prev ! i \<noteq> [])"
proof -
  let ?new = "split_nl ascii_frame"
  have w: "line_writes_of (fst (render_frame st ascii_frame tsize)) = diff_writes ?new prev"
    by (simp add: render_frame_diff [OF assms(1,2)])
  have a: "list_all (\<lambda>w. 1 \<le> fst w \<and> fst w - 1 < length ?new) (diff_writes ?new prev)"
    using diff_writes_row_below [of _ _ ?new prev] by (auto simp: list_all_iff)
  have b: "list_all (\<lambda>w. fst w - 1 \<noteq> i) (diff_writes ?new prev)"
    using diff_writes_row_below [of _ _ ?new prev] assms(4) by (fastforce simp: list_all_iff)
  have c: "grid_row (apply_writes prev (diff_writes ?new prev)) i = prev ! i"
    using grid_after_diff_beyond [OF assms(4), of prev] assms(5) by (simp add: grid_row_def)
  have d: "i \<in> set (fast_diff_lines ?new prev (max (length ?new) (length prev))) \<longleftrightarrow> prev ! i \<noteq> []"
    using assms(4,5) by (auto simp: fast_diff_lines_set grid_row_def)
  show ?thesis using a b c d by (simp only: w)
qed

theorem C9_trailing_rows_untouched_witness:
  "length (split_nl ''ab'') < length [''ab'', ''cd''] \<and>
   line_writes_of (fst (render_frame \<lparr>prev_frame_lines = Some [''ab'', ''cd''], prev_terminal_size = (80, 24)\<rparr>
                          ''ab'' (80, 24))) = [] \<and>
   grid_row (apply_writes [''ab'', ''cd'']
     (line_writes_of (fst (render_frame \<lparr>prev_frame_lines = Some [''ab'', ''cd''], prev_terminal_size = (80, 24)\<rparr>
                             ''ab'' (80, 24))))) 1 = ''cd'' \<and>
   1 \<in> set (fast_diff_lines (split_nl ''ab'') [''ab'', ''cd'']
              (max (length (split_nl ''ab'')) (length [''ab'', ''cd''])))"
proof -
  let ?st = "\<lparr>prev_frame_lines = Some [''ab'', ''cd''], prev_terminal_size = (80 :: nat, 24 :: nat)\<rparr>"
  have s: "split_nl ''ab'' = [''ab'']" by simp
  have h1: "prev_frame_lines ?st = Some [''ab'', ''cd'']" by simp
  have h2: "(80, 24) = prev_terminal_size ?st" by simp
  have h3: "length (split_nl ''ab'') < length [''ab'', ''cd'']" by (simp only: s) simp
  have h4: "length (split_nl ''ab'') \<le> 1" by (simp only: s) simp
  have h5: "1 < length [''ab'', ''cd'']" by simp
  have w: "line_writes_of (fst (render_frame ?st ''ab'' (80, 24))) = []" by code_simp
  note t = C9_trailing_rows_untouched [OF h1 h2 h3 h4 h5]
  have g: "grid_row (apply_writes [''ab'', ''cd''] (line_writes_of (fst (render_frame ?st ''ab'' (80, 24))))) 1 = ''cd''"
    using t by simp
  have m: "1 \<in> set (fast_diff_lines (split_nl ''ab'') [''ab'', ''cd'']
              (max (length (split_nl ''ab'')) (length [''ab'', ''cd''])))"
    using t by simp
  show ?thesis using h3 w g m by blast
qed


section \<open>Properties of the audio player\<close>

subsection \<open>Draining the pending commands\<close>






subsection \<open>Rounding in the audio clock\<close>

text \<open>
  The audio clock is a float: the tolerance \<open>0.1\<close>, the advance \<open>frames / samplerate\<close> and
  the product \<open>audio_time * samplerate\<close> are all rounded. At 47 Hz a first block of 3
  frames leaves the clock at the float \<open>3 / 47\<close>, whose product with 47 rounds below 3:
  the second block starts at sample 2. The floats \<open>0.3\<close> and \<open>0.4\<close> differ by more than the
  float \<open>0.1\<close>, so \<open>update_video_time\<close> queues a command for them.
\<close>

lemma example_index_rounding:
  "py_int (fmul (fadd 0 (fdiv (real 3) (real_of_int 47))) (float_of_int 47)) = 2"
  by (simp add: float_eval)

lemma example_tolerance_rounding:
  "update_video_time (new_player\<lparr>audio_time := round64 (3 / 10)\<rparr>) (round64 (4 / 10)) =
     new_player\<lparr>audio_time := round64 (3 / 10), video_time := round64 (4 / 10),
       sync_queue := [\<lparr>ctype = ''set_time'', ctime = round64 (4 / 10)\<rparr>]\<rparr>"
proof -
  have "\<bar>fsub (round64 (3 / 10)) (round64 (4 / 10))\<bar> > round64 (1 / 10)"
    by (simp add: float_eval)
  then show ?thesis by (simp add: update_video_time_def new_player_def)
qed

subsection \<open>The callback after a sync hint\<close>




subsection \<open>Claim C8: a sync hint in the audio callback\<close>




subsection \<open>Claim C10: \<open>stop\<close> on a player that is already stopped\<close>

text \<open>
  C10: \<open>AudioPlayer.stop()\<close> is idempotent: when \<open>should_stop\<close> is already set (by an
  earlier \<open>stop()\<close> or by the callback at the end of the audio), a call returns at once,
  with no effect on the thread or the stream, and leaves \<open>stream\<close>, \<open>audio_clip\<close>,
  \<open>audio_array\<close>, \<open>initialized\<close> and \<open>playback_started\<close> (indeed the whole player) unchanged;
  and after any \<open>stop()\<close> the flag is set, so a second \<open>stop()\<close> changes nothing.
\<close>

theorem C10_stop_when_already_stopped:
  assumes "should_stop p"
  shows "stop p = ([], p) \<and>
         stream (snd (stop p)) = stream p \<and> audio_clip (snd (stop p)) = audio_clip p \<and>
         audio_array (snd (stop p)) = audio_array p \<and> initialized (snd (stop p)) = initialized p \<and>
         playback_started (snd (stop p)) = playback_started p \<and>
         should_stop (snd (stop q)) \<and> stop (snd (stop q)) = ([], snd (stop q))"
proof -
  have a: "stop p = ([], p)" using assms by (simp add: stop_def)
  have b: "should_stop (snd (stop q))" by (simp add: stop_def Let_def)
  then have c: "stop (snd (stop q)) = ([], snd (stop q))" by (simp add: stop_def [of "snd (stop q)"])
  show ?thesis using a b c by simp
qed

theorem C10_stop_when_already_stopped_witness:
  "should_stop (new_player\<lparr>should_stop := True, stream := Some (), audio_array := Some [[0]],
                  initialized := True, playback_started := True\<rparr>) \<and>
   stop (new_player\<lparr>should_stop := True, stream := Some (), audio_array := Some [[0]],
           initialized := True, playback_started := True\<rparr>) =
     ([], new_player\<lparr>should_stop := True, stream := Some (), audio_array := Some [[0]],
            initialized := True, playback_started := True\<rparr>) \<and>
   stop (new_player\<lparr>audio_thread := Some True, stream := Some (), audio_clip := Some (),
           audio_array := Some [[0]], initialized := True, playback_started := True\<rparr>) =
     ([JoinThread, AbortStream], new_player\<lparr>should_stop := True, audio_thread := Some True\<rparr>) \<and>
   stop (new_player\<lparr>should_stop := True, audio_thread := Some True\<rparr>) =
     ([], new_player\<lparr>should_stop := True, audio_thread := Some True\<rparr>)"
proof -
  let ?p = "new_player\<lparr>should_stop := True, stream := Some (), audio_array := Some [[0]],
                  initialized := True, playback_started := True\<rparr>"
  let ?q = "new_player\<lparr>audio_thread := Some True, stream := Some (), audio_clip := Some (),
           audio_array := Some [[0]], initialized := True, playback_started := True\<rparr>"
  have h: "should_stop ?p" by simp
  have s: "stop ?q = ([JoinThread, AbortStream], new_player\<lparr>should_stop := True, audio_thread := Some True\<rparr>)"
    by (simp add: stop_def new_player_def Let_def)
  note t = C10_stop_when_already_stopped [OF h, of ?q]
  have a: "stop ?p = ([], ?p)" using t by blast
  have "stop (snd (stop ?q)) = ([], snd (stop ?q))" using t by blast
  then have b: "stop (new_player\<lparr>should_stop := True, audio_thread := Some True\<rparr>) =
     ([], new_player\<lparr>should_stop := True, audio_thread := Some True\<rparr>)"
    by (simp add: s)
  show ?thesis using h a s b by blast
qed

end
